theory Spec2Isabelle
  imports Complex_Main
begin

section \<open>Python's \<^verbatim>\<open>decimal.Decimal\<close>, as far as \<^verbatim>\<open>money.py\<close> uses it\<close>

text \<open>
  A finite \<^verbatim>\<open>Decimal\<close> is a signed integer coefficient and a power-of-ten exponent:
  \<^verbatim>\<open>Decimal("3.95")\<close> is \<open>Decimal 395 (-2)\<close>, \<^verbatim>\<open>Decimal("1E+28")\<close> is \<open>Decimal 1 28\<close>.
  The sign is kept in the coefficient (a negative zero compares equal to zero and no
  operation below tells them apart). NaN and the infinities are not modelled: amounts and
  scalars are finite numbers.

  \<^verbatim>\<open>money.py\<close> never sets a decimal context, so the default one applies: 28 significant
  digits, results of arithmetic rounded half-even, \<^verbatim>\<open>InvalidOperation\<close> trapped
  (raised as an exception). The exponent limits of the context (Emax = 999999 and
  Emin = -999999) are not modelled: a value beyond them cannot pass \<open>quantize\<close>, which
  every amount goes through, and is reported there.
\<close>

datatype decimal = Decimal (coefficient: int) (exponent: int)

definition prec :: nat where
  "prec = 28"

datatype error =
    InvalidAmountError
  | CurrencyMismatchError
  | InvalidOperandError
  | ZeroDivisionError
  | InvalidOperation

text \<open>The coefficient a decimal has when it is written with the (smaller) exponent \<open>m\<close>.\<close>

definition scaled :: "decimal \<Rightarrow> int \<Rightarrow> int" where
  "scaled d m = coefficient d * 10 ^ nat (exponent d - m)"

text \<open>
  Comparisons of two Decimals are exact comparisons of their numeric values, whatever the
  exponents: \<^verbatim>\<open>Decimal("3.9") == Decimal("3.90")\<close>.
\<close>

definition dec_eq :: "decimal \<Rightarrow> decimal \<Rightarrow> bool" where
  "dec_eq a b = (let m = min (exponent a) (exponent b) in scaled a m = scaled b m)"

definition dec_less :: "decimal \<Rightarrow> decimal \<Rightarrow> bool" where
  "dec_less a b = (let m = min (exponent a) (exponent b) in scaled a m < scaled b m)"

definition dec_le :: "decimal \<Rightarrow> decimal \<Rightarrow> bool" where
  "dec_le a b = (let m = min (exponent a) (exponent b) in scaled a m \<le> scaled b m)"

definition is_zero :: "decimal \<Rightarrow> bool" where
  "is_zero d = (coefficient d = 0)"

text \<open>The number a Decimal denotes.\<close>

definition dec_value :: "decimal \<Rightarrow> rat" where
  "dec_value d = of_int (coefficient d) * 10 powi (exponent d)"

text \<open>
  \<^verbatim>\<open>ROUND_HALF_UP\<close>: \<open>c / m\<close> rounded to the nearest integer, a tie going away from
  zero. \<^verbatim>\<open>ROUND_HALF_EVEN\<close>: a tie going to the even neighbour.
\<close>

definition round_half_up :: "int \<Rightarrow> int \<Rightarrow> int" where
  "round_half_up c m = sgn c * ((2 * \<bar>c\<bar> + m) div (2 * m))"

definition round_half_even :: "int \<Rightarrow> int \<Rightarrow> int" where
  "round_half_even c m =
     (let q = \<bar>c\<bar> div m; r = \<bar>c\<bar> mod m
      in sgn c * (if m < 2 * r \<or> (2 * r = m \<and> odd q) then q + 1 else q))"

text \<open>
  \<^verbatim>\<open>d.quantize(Decimal(q), rounding=ROUND_HALF_UP)\<close> only reads the exponent \<open>t\<close> of
  \<open>q\<close>: the result has exponent \<open>t\<close> and the value of \<open>d\<close> rounded half-up to a multiple
  of \<open>10^t\<close>. If the coefficient of the result would have more than \<open>prec\<close> digits,
  \<^verbatim>\<open>InvalidOperation\<close> is raised.
\<close>

definition rescale :: "decimal \<Rightarrow> int \<Rightarrow> decimal" where
  "rescale d t =
     (if t \<le> exponent d then Decimal (coefficient d * 10 ^ nat (exponent d - t)) t
      else Decimal (round_half_up (coefficient d) (10 ^ nat (t - exponent d))) t)"

definition quantize :: "decimal \<Rightarrow> int \<Rightarrow> error + decimal" where
  "quantize d t =
     (let r = rescale d t
      in if 10 ^ prec \<le> \<bar>coefficient r\<bar> then Inl InvalidOperation else Inr r)"

text \<open>
  Arithmetic on Decimals computes the exact result and then rounds it to the context:
  \<open>dec_fix\<close> (Python's \<^verbatim>\<open>Decimal._fix\<close>) keeps a coefficient of at most \<open>prec\<close> digits and
  rounds one that is longer half-even to \<open>prec\<close> digits, raising the exponent.
  \<open>ndigits\<close> is the length of the coefficient string.
\<close>

fun ndigits :: "nat \<Rightarrow> nat" where
  "ndigits n = (if n < 10 then 1 else Suc (ndigits (n div 10)))"

declare ndigits.simps [simp del]

definition dec_fix :: "decimal \<Rightarrow> decimal" where
  "dec_fix d =
     (let n = ndigits (nat \<bar>coefficient d\<bar>)
      in if n \<le> prec then d
         else let k = n - prec; r = round_half_even (coefficient d) (10 ^ k)
              in if 10 ^ prec \<le> \<bar>r\<bar> then Decimal (r div 10) (exponent d + int k + 1)
                 else Decimal r (exponent d + int k))"



definition dec_mul :: "decimal \<Rightarrow> decimal \<Rightarrow> decimal" where
  "dec_mul a b = dec_fix (Decimal (coefficient a * coefficient b) (exponent a + exponent b))"




text \<open>
  True division, as \<^verbatim>\<open>Decimal.__truediv__\<close> computes it: the dividend is shifted so that
  the integer quotient has one digit more than the precision, a remainder is recorded in
  the last digit, and an exact quotient is brought back towards the ideal exponent by
  dropping trailing zeros; \<open>dec_fix\<close> then rounds. A zero divisor signals
  \<^verbatim>\<open>DivisionByZero\<close> (a \<^verbatim>\<open>ZeroDivisionError\<close>), or \<^verbatim>\<open>InvalidOperation\<close> for \<open>0 / 0\<close>.
\<close>

fun toward_ideal :: "nat \<Rightarrow> int \<Rightarrow> int \<Rightarrow> decimal" where
  "toward_ideal 0 coeff ex = Decimal coeff ex"
| "toward_ideal (Suc n) coeff ex =
     (if coeff mod 10 = 0 then toward_ideal n (coeff div 10) (ex + 1) else Decimal coeff ex)"

definition dec_truediv :: "decimal \<Rightarrow> decimal \<Rightarrow> error + decimal" where
  "dec_truediv a b =
     (if is_zero b then (if is_zero a then Inl InvalidOperation else Inl ZeroDivisionError)
      else if is_zero a then Inr (dec_fix (Decimal 0 (exponent a - exponent b)))
      else
        let sign = sgn (coefficient a) * sgn (coefficient b);
            op1 = \<bar>coefficient a\<bar>; op2 = \<bar>coefficient b\<bar>;
            shift = int (ndigits (nat op2)) - int (ndigits (nat op1)) + int prec + 1;
            ex = exponent a - exponent b - shift;
            num = (if 0 \<le> shift then op1 * 10 ^ nat shift else op1);
            den = (if 0 \<le> shift then op2 else op2 * 10 ^ nat (- shift));
            coeff = num div den; remainder = num mod den;
            q = (if remainder \<noteq> 0
                 then Decimal (if coeff mod 5 = 0 then coeff + 1 else coeff) ex
                 else toward_ideal (nat (exponent a - exponent b - ex)) coeff ex)
        in Inr (dec_fix (Decimal (sign * coefficient q) (exponent q))))"

text \<open>
  \<^verbatim>\<open>Decimal._divide\<close>: the integer quotient, truncated towards zero, and the remainder,
  which has the sign of the dividend. A quotient of more than \<open>prec\<close> digits signals
  \<^verbatim>\<open>DivisionImpossible\<close>, an \<^verbatim>\<open>InvalidOperation\<close>. \<^verbatim>\<open>//\<close> returns the quotient, \<^verbatim>\<open>%\<close>
  the remainder rounded to the context.
\<close>

definition dec_divide :: "decimal \<Rightarrow> decimal \<Rightarrow> error + decimal \<times> decimal" where
  "dec_divide a b =
     (let m = min (exponent a) (exponent b);
          q = \<bar>scaled a m\<bar> div \<bar>scaled b m\<bar>;
          r = \<bar>scaled a m\<bar> mod \<bar>scaled b m\<bar>
      in if 10 ^ prec \<le> q then Inl InvalidOperation
         else Inr (Decimal (sgn (coefficient a) * sgn (coefficient b) * q) 0,
                   Decimal (sgn (coefficient a) * r) m))"

definition dec_floordiv :: "decimal \<Rightarrow> decimal \<Rightarrow> error + decimal" where
  "dec_floordiv a b =
     (if is_zero b then (if is_zero a then Inl InvalidOperation else Inl ZeroDivisionError)
      else case dec_divide a b of Inl e \<Rightarrow> Inl e | Inr (q, r) \<Rightarrow> Inr q)"

definition dec_mod :: "decimal \<Rightarrow> decimal \<Rightarrow> error + decimal" where
  "dec_mod a b =
     (if is_zero b then Inl InvalidOperation
      else case dec_divide a b of Inl e \<Rightarrow> Inl e | Inr (q, r) \<Rightarrow> Inr (dec_fix r))"

text \<open>\<^verbatim>\<open>int(d)\<close> truncates towards zero.\<close>

definition to_int :: "decimal \<Rightarrow> int" where
  "to_int d =
     (if 0 \<le> exponent d then coefficient d * 10 ^ nat (exponent d)
      else sgn (coefficient d) * (\<bar>coefficient d\<bar> div 10 ^ nat (- exponent d)))"

section \<open>The quantum strings of \<^verbatim>\<open>Money._round\<close>\<close>

text \<open>
  \<^verbatim>\<open>_round\<close> builds its two quanta as \<^verbatim>\<open>Decimal(str(1 / n).rstrip("0"))\<close>, with \<open>n\<close> the
  sub-unit divisor and then \<open>10 ** decimal_precision\<close>. For \<open>n = 10^j\<close> the float
  \<open>1 / n\<close> prints as \<^verbatim>\<open>1.0\<close>, \<^verbatim>\<open>0.1\<close>, \<^verbatim>\<open>0.01\<close>, \<^verbatim>\<open>0.001\<close>, \<^verbatim>\<open>0.0001\<close> for \<open>j \<le> 4\<close>, as
  \<^verbatim>\<open>1e-05\<close> ... \<^verbatim>\<open>1e-323\<close> for \<open>5 \<le> j \<le> 323\<close>, and as \<^verbatim>\<open>0.0\<close> beyond (the quotient
  underflows). \<^verbatim>\<open>rstrip("0")\<close> then removes the trailing zeros of the string: \<^verbatim>\<open>1.0\<close> becomes
  \<^verbatim>\<open>1.\<close> (exponent 0), and in scientific notation the zeros that end the exponent go too:
  \<^verbatim>\<open>1e-10\<close> becomes \<^verbatim>\<open>1e-1\<close>. \<open>float_quantum j\<close> is the exponent of the resulting Decimal.
  Divisors that are not powers of ten are outside the registry the specification
  describes, and outside this model.
\<close>

fun rstrip0 :: "nat \<Rightarrow> nat" where
  "rstrip0 j = (if 0 < j \<and> j mod 10 = 0 then rstrip0 (j div 10) else j)"

declare rstrip0.simps [simp del]

definition float_quantum :: "nat \<Rightarrow> int" where
  "float_quantum j =
     (if j < 5 then - int j else if j < 324 then - int (rstrip0 j) else 0)"

fun ilog10 :: "nat \<Rightarrow> nat" where
  "ilog10 n = (if n < 10 then 0 else Suc (ilog10 (n div 10)))"

declare ilog10.simps [simp del]

definition quantum_exponent :: "nat \<Rightarrow> int" where
  "quantum_exponent n = float_quantum (ilog10 n)"

section \<open>The currency registry\<close>

text \<open>
  Modelled from the spec: \<^verbatim>\<open>money/currency.py\<close> (the \<^verbatim>\<open>Currency\<close> enumeration and
  \<^verbatim>\<open>CurrencyHelper\<close>) is not part of the sources. A currency is its code together with
  the two registry facts the specification names: the sub-unit divisor and the display
  precision. A registered currency has a power of ten as sub-unit divisor.
\<close>

record currency =
  code :: string
  sub_unit :: nat
  decimal_precision :: nat

definition sub_unit_for_currency :: "currency \<Rightarrow> nat" where
  "sub_unit_for_currency c = sub_unit c"

definition decimal_precision_for_currency :: "currency \<Rightarrow> nat" where
  "decimal_precision_for_currency c = decimal_precision c"

definition registered :: "currency \<Rightarrow> bool" where
  "registered c = (sub_unit c = 10 ^ ilog10 (sub_unit c))"

definition USD :: currency where
  "USD = \<lparr>code = ''USD'', sub_unit = 100, decimal_precision = 2\<rparr>"

definition JPY :: currency where
  "JPY = \<lparr>code = ''JPY'', sub_unit = 1, decimal_precision = 0\<rparr>"

text \<open>
  GNF is the registry entry the test suite relies on for a currency whose display
  precision does not cover its sub-units: \<^verbatim>\<open>test_multiply\<close> expects
  \<^verbatim>\<open>Money(3, GNF) * 1.4995\<close> to be 5 where JPY gives 4, ``since GNF has different subunits
  than JPY ... even though they have the same final decimal precision'': 100 sub-units
  and no display decimals.
\<close>

definition GNF :: currency where
  "GNF = \<lparr>code = ''GNF'', sub_unit = 100, decimal_precision = 0\<rparr>"

section \<open>Money: construction and rounding\<close>

record money =
  amount :: decimal
  currency :: currency

text \<open>\<^verbatim>\<open>Money._round\<close>: quantize to the sub-unit step, then to the display precision.\<close>

definition stage1 :: "currency \<Rightarrow> int" where
  "stage1 c = quantum_exponent (sub_unit_for_currency c)"

definition stage2 :: "currency \<Rightarrow> int" where
  "stage2 c = quantum_exponent (10 ^ decimal_precision_for_currency c)"

definition Money_round :: "decimal \<Rightarrow> currency \<Rightarrow> error + decimal" where
  "Money_round a c =
     (case quantize a (stage1 c) of
        Inl e \<Rightarrow> Inl e
      | Inr rounded_to_subunits \<Rightarrow> quantize rounded_to_subunits (stage2 c))"

text \<open>
  \<^verbatim>\<open>Money.__init__\<close>, for an amount that is a Decimal. The flag is the parameter
  \<^verbatim>\<open>round\<close>: \<open>False\<close> (the default) is the strict mode.
\<close>

definition Money_init :: "decimal \<Rightarrow> currency \<Rightarrow> bool \<Rightarrow> error + money" where
  "Money_init a c rnd =
     (case Money_round a c of
        Inl e \<Rightarrow> Inl e
      | Inr rounded_amount \<Rightarrow>
          if rnd then Inr \<lparr>amount = rounded_amount, currency = c\<rparr>
          else if \<not> dec_eq rounded_amount a then Inl InvalidAmountError
          else Inr \<lparr>amount = a, currency = c\<rparr>)"

text \<open>\<^verbatim>\<open>Money.from_sub_units\<close> and the property \<^verbatim>\<open>Money.sub_units\<close>.\<close>

definition from_sub_units :: "int \<Rightarrow> currency \<Rightarrow> error + money" where
  "from_sub_units n c =
     (let sub_units_per_unit = sub_unit_for_currency c
      in case dec_truediv (Decimal n 0) (Decimal (int sub_units_per_unit) 0) of
           Inl e \<Rightarrow> Inl e
         | Inr a \<Rightarrow> Money_init a c False)"

definition sub_units :: "money \<Rightarrow> int" where
  "sub_units self =
     (let sub_units_per_unit = sub_unit_for_currency (currency self)
      in to_int (dec_mul (amount self) (Decimal (int sub_units_per_unit) 0)))"

section \<open>Money: comparison and arithmetic\<close>

text \<open>
  The right operand of an operator is a Money or not. What is not a Money is a number
  (an int or a finite float): \<open>Number k\<close> stands for the number \<open>other\<close> with
  \<^verbatim>\<open>Decimal(other) = k\<close>, a conversion that is exact. An operator that returns
  \<^verbatim>\<open>Union[Money, float]\<close> returns \<open>RMoney\<close> or \<open>RFloat q\<close>, the latter standing for
  \<^verbatim>\<open>float(q)\<close> of the Decimal \<open>q\<close>.
\<close>

datatype operand = MoneyOperand money | Number decimal

datatype result = RMoney money | RFloat decimal

definition assert_same_currency :: "money \<Rightarrow> money \<Rightarrow> error + unit" where
  "assert_same_currency self other =
     (if currency self \<noteq> currency other then Inl CurrencyMismatchError else Inr ())"

definition Money_lt :: "money \<Rightarrow> operand \<Rightarrow> error + bool" where
  "Money_lt self other =
     (case other of
        Number k \<Rightarrow> Inl InvalidOperandError
      | MoneyOperand other \<Rightarrow>
          (case assert_same_currency self other of
             Inl e \<Rightarrow> Inl e
           | Inr u \<Rightarrow> Inr (dec_less (amount self) (amount other))))"

definition Money_le :: "money \<Rightarrow> operand \<Rightarrow> error + bool" where
  "Money_le self other =
     (case other of
        Number k \<Rightarrow> Inl InvalidOperandError
      | MoneyOperand other \<Rightarrow>
          (case assert_same_currency self other of
             Inl e \<Rightarrow> Inl e
           | Inr u \<Rightarrow> Inr (dec_le (amount self) (amount other))))"

definition Money_gt :: "money \<Rightarrow> operand \<Rightarrow> error + bool" where
  "Money_gt self other =
     (case other of
        Number k \<Rightarrow> Inl InvalidOperandError
      | MoneyOperand other \<Rightarrow>
          (case assert_same_currency self other of
             Inl e \<Rightarrow> Inl e
           | Inr u \<Rightarrow> Inr (dec_less (amount other) (amount self))))"

definition Money_ge :: "money \<Rightarrow> operand \<Rightarrow> error + bool" where
  "Money_ge self other =
     (case other of
        Number k \<Rightarrow> Inl InvalidOperandError
      | MoneyOperand other \<Rightarrow>
          (case assert_same_currency self other of
             Inl e \<Rightarrow> Inl e
           | Inr u \<Rightarrow> Inr (dec_le (amount other) (amount self))))"

definition Money_eq :: "money \<Rightarrow> operand \<Rightarrow> error + bool" where
  "Money_eq self other =
     (case other of
        Number k \<Rightarrow> Inl InvalidOperandError
      | MoneyOperand other \<Rightarrow>
          (case assert_same_currency self other of
             Inl e \<Rightarrow> Inl e
           | Inr u \<Rightarrow> Inr (dec_eq (amount self) (amount other))))"

definition Money_ne :: "money \<Rightarrow> operand \<Rightarrow> error + bool" where
  "Money_ne self other =
     (case Money_eq self other of Inl e \<Rightarrow> Inl e | Inr b \<Rightarrow> Inr (\<not> b))"





text \<open>
  The scalar operators round the Decimal result with \<^verbatim>\<open>_round\<close> and hand it to the
  constructor, which is called without \<^verbatim>\<open>round=True\<close> and so rounds and compares again.
\<close>

definition rounded_Money :: "error + decimal \<Rightarrow> currency \<Rightarrow> error + money" where
  "rounded_Money x c =
     (case x of
        Inl e \<Rightarrow> Inl e
      | Inr v \<Rightarrow>
          (case Money_round v c of
             Inl e \<Rightarrow> Inl e
           | Inr a \<Rightarrow> Money_init a c False))"

definition Money_mul :: "money \<Rightarrow> operand \<Rightarrow> error + money" where
  "Money_mul self other =
     (case other of
        MoneyOperand other \<Rightarrow> Inl InvalidOperandError
      | Number k \<Rightarrow> rounded_Money (Inr (dec_mul (amount self) k)) (currency self))"


definition Money_truediv :: "money \<Rightarrow> operand \<Rightarrow> error + result" where
  "Money_truediv self other =
     (case other of
        MoneyOperand other \<Rightarrow>
          (case assert_same_currency self other of
             Inl e \<Rightarrow> Inl e
           | Inr u \<Rightarrow>
               if dec_eq (amount other) (Decimal 0 0) then Inl ZeroDivisionError
               else map_sum id RFloat (dec_truediv (amount self) (amount other)))
      | Number k \<Rightarrow>
          if is_zero k then Inl ZeroDivisionError
          else map_sum id RMoney (rounded_Money (dec_truediv (amount self) k) (currency self)))"

definition Money_floordiv :: "money \<Rightarrow> operand \<Rightarrow> error + result" where
  "Money_floordiv self other =
     (case other of
        MoneyOperand other \<Rightarrow>
          (case assert_same_currency self other of
             Inl e \<Rightarrow> Inl e
           | Inr u \<Rightarrow>
               if dec_eq (amount other) (Decimal 0 0) then Inl ZeroDivisionError
               else map_sum id RFloat (dec_floordiv (amount self) (amount other)))
      | Number k \<Rightarrow>
          if is_zero k then Inl ZeroDivisionError
          else map_sum id RMoney (rounded_Money (dec_floordiv (amount self) k) (currency self)))"

definition Money_mod :: "money \<Rightarrow> operand \<Rightarrow> error + result" where
  "Money_mod self other =
     (case other of
        MoneyOperand other \<Rightarrow>
          (case assert_same_currency self other of
             Inl e \<Rightarrow> Inl e
           | Inr u \<Rightarrow>
               if dec_eq (amount other) (Decimal 0 0) then Inl ZeroDivisionError
               else map_sum id RFloat (dec_mod (amount self) (amount other)))
      | Number k \<Rightarrow>
          if is_zero k then Inl ZeroDivisionError
          else map_sum id RMoney (rounded_Money (dec_mod (amount self) k) (currency self)))"




text \<open>
  The invariant of a Money: its amount equals its own two-stage rounding (which, in
  particular, is defined).
\<close>

definition canonical :: "money \<Rightarrow> bool" where
  "canonical m =
     (case Money_round (amount m) (currency m) of
        Inl e \<Rightarrow> False
      | Inr r \<Rightarrow> dec_eq r (amount m))"




text \<open>The value of \<open>d\<close> is a multiple of \<open>10^t\<close>.\<close>

definition aligned :: "decimal \<Rightarrow> int \<Rightarrow> bool" where
  "aligned d t = (10 ^ nat (t - exponent d) dvd coefficient d)"

section \<open>Evaluation on concrete inputs\<close>

lemma ilog10_numeral [simp]:
  "ilog10 (numeral k) =
     (if (numeral k :: nat) < 10 then 0 else Suc (ilog10 (numeral k div 10)))"
  by (rule ilog10.simps)

lemma ilog10_small [simp]: "ilog10 0 = 0" "ilog10 1 = 0" "ilog10 (Suc 0) = 0"
  by (simp_all add: ilog10.simps)

lemma ndigits_numeral [simp]:
  "ndigits (numeral k) =
     (if (numeral k :: nat) < 10 then 1 else Suc (ndigits (numeral k div 10)))"
  by (rule ndigits.simps)

lemma ndigits_small [simp]: "ndigits 0 = 1" "ndigits 1 = 1" "ndigits (Suc 0) = 1"
  by (simp_all add: ndigits.simps)

lemma rstrip0_numeral [simp]:
  "rstrip0 (numeral k) =
     (if (numeral k :: nat) mod 10 = 0 then rstrip0 (numeral k div 10) else numeral k)"
  by (subst rstrip0.simps) simp

lemma rstrip0_small [simp]: "rstrip0 0 = 0" "rstrip0 1 = 1"
  by (simp_all add: rstrip0.simps)

lemma stage_USD [simp]: "stage1 USD = - 2" "stage2 USD = - 2"
  by (simp_all add: stage1_def stage2_def USD_def sub_unit_for_currency_def
      decimal_precision_for_currency_def quantum_exponent_def float_quantum_def)

lemma stage_JPY [simp]: "stage1 JPY = 0" "stage2 JPY = 0"
  by (simp_all add: stage1_def stage2_def JPY_def sub_unit_for_currency_def
      decimal_precision_for_currency_def quantum_exponent_def float_quantum_def)

lemma stage_GNF [simp]: "stage1 GNF = - 2" "stage2 GNF = 0"
  by (simp_all add: stage1_def stage2_def GNF_def sub_unit_for_currency_def
      decimal_precision_for_currency_def quantum_exponent_def float_quantum_def)

lemmas round_defs = Money_round_def quantize_def rescale_def round_half_up_def prec_def

section \<open>Rounding and quantize\<close>

lemma round_half_up_mult: "0 < m \<Longrightarrow> round_half_up (c * m) m = c"
proof -
  assume m: "0 < m"
  have "(2 * (\<bar>c\<bar> * m) + m) div (2 * m) = \<bar>c\<bar>"
  proof -
    have "2 * (\<bar>c\<bar> * m) + m = m + \<bar>c\<bar> * (2 * m)"
      by (simp add: algebra_simps)
    then have "(2 * (\<bar>c\<bar> * m) + m) div (2 * m) = m div (2 * m) + \<bar>c\<bar>"
      using m by (simp only: div_mult_self1)
    then show ?thesis using m by simp
  qed
  then show ?thesis using m
    by (simp add: round_half_up_def abs_mult sgn_mult mult_sgn_abs)
qed

lemma exponent_rescale [simp]: "exponent (rescale d t) = t"
  by (simp add: rescale_def)

lemma quantize_Inr:
  "quantize d t = Inr r \<longleftrightarrow> r = rescale d t \<and> \<bar>coefficient (rescale d t)\<bar> < 10 ^ prec"
  by (auto simp: quantize_def Let_def)

lemma quantize_Inl:
  "quantize d t = Inl e \<longleftrightarrow>
     e = InvalidOperation \<and> 10 ^ prec \<le> \<bar>coefficient (rescale d t)\<bar>"
  by (auto simp: quantize_def Let_def)

text \<open>Padding a decimal with zeros and rounding back to its exponent changes nothing.\<close>

lemma rescale_pad_back:
  assumes "t1 \<le> exponent r"
  shows "rescale (rescale r t1) (exponent r) = r"
proof (cases "t1 = exponent r")
  case True
  then show ?thesis by (cases r) (simp add: rescale_def)
next
  case False
  with assms have lt: "t1 < exponent r" by simp
  have "round_half_up (coefficient r * 10 ^ nat (exponent r - t1))
          (10 ^ nat (exponent r - t1)) = coefficient r"
    by (rule round_half_up_mult) simp
  with lt show ?thesis by (cases r) (simp add: rescale_def)
qed

lemma Money_round_Inr:
  "Money_round a c = Inr r \<longleftrightarrow>
     \<bar>coefficient (rescale a (stage1 c))\<bar> < 10 ^ prec \<and>
     \<bar>coefficient (rescale (rescale a (stage1 c)) (stage2 c))\<bar> < 10 ^ prec \<and>
     r = rescale (rescale a (stage1 c)) (stage2 c)"
  by (auto simp: Money_round_def quantize_Inr quantize_Inl split: sum.splits)

lemma Money_round_Inl:
  "Money_round a c = Inl e \<longleftrightarrow>
     e = InvalidOperation \<and>
     (10 ^ prec \<le> \<bar>coefficient (rescale a (stage1 c))\<bar> \<or>
      10 ^ prec \<le> \<bar>coefficient (rescale (rescale a (stage1 c)) (stage2 c))\<bar>)"
  by (auto simp: Money_round_def quantize_Inr quantize_Inl split: sum.splits)

lemma Money_round_again:
  assumes "Money_round a c = Inr r"
  shows "Money_round r c =
     (if 10 ^ prec \<le> \<bar>coefficient r\<bar> * 10 ^ nat (stage2 c - stage1 c)
      then Inl InvalidOperation else Inr r)"
proof -
  let ?t1 = "stage1 c" and ?t2 = "stage2 c"
  let ?s = "rescale a ?t1"
  from assms have s: "\<bar>coefficient ?s\<bar> < 10 ^ prec"
    and rb: "\<bar>coefficient r\<bar> < 10 ^ prec"
    and r: "r = rescale ?s ?t2"
    by (simp_all add: Money_round_Inr)
  have er: "exponent r = ?t2" using r by simp
  show ?thesis
  proof (cases "?t2 \<le> ?t1")
    case True
    have "rescale r ?t1 = ?s"
      using rescale_pad_back [of ?t2 ?s] True r by simp
    then have "Money_round r c = Inr r"
      using s rb r by (simp add: Money_round_Inr)
    then show ?thesis using True rb by simp
  next
    case False
    then have pad: "coefficient (rescale r ?t1) = coefficient r * 10 ^ nat (?t2 - ?t1)"
      using er by (simp add: rescale_def)
    show ?thesis
    proof (cases "10 ^ prec \<le> \<bar>coefficient r\<bar> * 10 ^ nat (?t2 - ?t1)")
      case True
      then have "quantize r ?t1 = Inl InvalidOperation"
        by (simp add: quantize_Inl pad abs_mult)
      then show ?thesis using True by (simp add: Money_round_def)
    next
      case big: False
      have "rescale (rescale r ?t1) ?t2 = r"
        using rescale_pad_back [of ?t1 r] False er by simp
      then have "Money_round r c = Inr r"
        using big rb by (simp add: Money_round_Inr pad abs_mult)
      then show ?thesis using big by simp
    qed
  qed
qed

section \<open>Construction\<close>

text \<open>
  C1, as the code has it. Whenever the two-stage rounding of \<open>a\<close> is defined, with result
  \<open>r\<close>, the strict constructor (\<^verbatim>\<open>round=False\<close>) raises \<^verbatim>\<open>InvalidAmountError\<close> exactly
  when \<open>r\<close> differs numerically from \<open>a\<close> and otherwise returns a Money that holds \<open>a\<close>,
  and the rounding constructor (\<^verbatim>\<open>round=True\<close>) returns a Money that holds \<open>r\<close>. The
  rounding is undefined exactly when one of its two quantize steps needs a coefficient
  of more than 28 digits; then both constructors raise \<^verbatim>\<open>decimal.InvalidOperation\<close>.
\<close>

theorem Money_init_strict_and_rounding:
  "(Money_round a c = Inr r \<longrightarrow>
      (Money_init a c False = Inl InvalidAmountError \<longleftrightarrow> \<not> dec_eq r a) \<and>
      (dec_eq r a \<longrightarrow> Money_init a c False = Inr \<lparr>amount = a, currency = c\<rparr>) \<and>
      Money_init a c True = Inr \<lparr>amount = r, currency = c\<rparr>) \<and>
   ((\<forall>r. Money_round a c \<noteq> Inr r) \<longleftrightarrow>
      10 ^ prec \<le> \<bar>coefficient (rescale a (stage1 c))\<bar> \<or>
      10 ^ prec \<le> \<bar>coefficient (rescale (rescale a (stage1 c)) (stage2 c))\<bar>) \<and>
   ((\<forall>r. Money_round a c \<noteq> Inr r) \<longrightarrow>
      Money_init a c False = Inl InvalidOperation \<and>
      Money_init a c True = Inl InvalidOperation)"
proof (intro conjI impI)
  assume "Money_round a c = Inr r"
  then show "Money_init a c False = Inl InvalidAmountError \<longleftrightarrow> \<not> dec_eq r a"
    and "Money_init a c True = Inr \<lparr>amount = r, currency = c\<rparr>"
    by (simp_all add: Money_init_def)
next
  assume "Money_round a c = Inr r" and "dec_eq r a"
  then show "Money_init a c False = Inr \<lparr>amount = a, currency = c\<rparr>"
    by (simp add: Money_init_def)
next
  show "(\<forall>r. Money_round a c \<noteq> Inr r) \<longleftrightarrow>
      10 ^ prec \<le> \<bar>coefficient (rescale a (stage1 c))\<bar> \<or>
      10 ^ prec \<le> \<bar>coefficient (rescale (rescale a (stage1 c)) (stage2 c))\<bar>"
    by (auto simp: Money_round_Inr)
next
  assume none: "\<forall>r. Money_round a c \<noteq> Inr r"
  then obtain e where "Money_round a c = Inl e"
    by (cases "Money_round a c") auto
  then have "Money_round a c = Inl InvalidOperation"
    by (simp add: Money_round_Inl)
  then show "Money_init a c False = Inl InvalidOperation"
    and "Money_init a c True = Inl InvalidOperation"
    by (simp_all add: Money_init_def)
qed

theorem Money_init_strict_and_rounding_witness:
  "Money_round (Decimal 3956 (- 3)) USD = Inr (Decimal 396 (- 2)) \<and>
   \<not> dec_eq (Decimal 396 (- 2)) (Decimal 3956 (- 3)) \<and>
   Money_init (Decimal 3956 (- 3)) USD False = Inl InvalidAmountError \<and>
   Money_init (Decimal 3956 (- 3)) USD True = Inr \<lparr>amount = Decimal 396 (- 2), currency = USD\<rparr> \<and>
   Money_round (Decimal 39 (- 1)) USD = Inr (Decimal 390 (- 2)) \<and>
   dec_eq (Decimal 390 (- 2)) (Decimal 39 (- 1)) \<and>
   Money_init (Decimal 39 (- 1)) USD False = Inr \<lparr>amount = Decimal 39 (- 1), currency = USD\<rparr> \<and>
   (\<forall>r. Money_round (Decimal 1 28) JPY \<noteq> Inr r) \<and>
   Money_init (Decimal 1 28) JPY False = Inl InvalidOperation"
proof -
  have r1: "Money_round (Decimal 3956 (- 3)) USD = Inr (Decimal 396 (- 2))"
    by (simp add: round_defs)
  have n1: "\<not> dec_eq (Decimal 396 (- 2)) (Decimal 3956 (- 3))"
    by (simp add: dec_eq_def scaled_def)
  have r2: "Money_round (Decimal 39 (- 1)) USD = Inr (Decimal 390 (- 2))"
    by (simp add: round_defs)
  have e2: "dec_eq (Decimal 390 (- 2)) (Decimal 39 (- 1))"
    by (simp add: dec_eq_def scaled_def)
  have r3: "\<forall>r. Money_round (Decimal 1 28) JPY \<noteq> Inr r"
    by (simp add: round_defs)
  show ?thesis
    using Money_init_strict_and_rounding [of "Decimal 3956 (- 3)" USD "Decimal 396 (- 2)"]
      Money_init_strict_and_rounding [of "Decimal 39 (- 1)" USD "Decimal 390 (- 2)"]
      Money_init_strict_and_rounding [of "Decimal 1 28" JPY] r1 n1 r2 e2 r3
    by blast
qed

text \<open>
  C1, as stated, fails: \<^verbatim>\<open>Money(Decimal("1E+28"), JPY, round=True)\<close> does not succeed,
  and in strict mode the same amount, which equals its own rounding as a number, is
  not accepted either. Both calls raise \<^verbatim>\<open>decimal.InvalidOperation\<close>.
\<close>

theorem Money_init_counterexample:
  "Money_init (Decimal 1 28) JPY True = Inl InvalidOperation \<and>
   Money_init (Decimal 1 28) JPY False = Inl InvalidOperation"
  by (simp add: Money_init_def round_defs)

section \<open>Idempotence of the two-stage rounding\<close>

text \<open>
  C2, as the code has it. If the two-stage rounding of \<open>a\<close> returns \<open>r\<close>, then rounding
  \<open>r\<close> again returns \<open>r\<close>, unless the display quantum is coarser than the sub-unit
  quantum and \<open>r\<close>, written at the sub-unit quantum, needs more than 28 digits: then the
  second rounding raises \<^verbatim>\<open>decimal.InvalidOperation\<close>. In particular the rounding is
  idempotent for every currency whose display quantum is not coarser than its sub-unit
  quantum.
\<close>

theorem Money_round_idempotent:
  assumes "Money_round a c = Inr r"
  shows "Money_round r c =
           (if 10 ^ prec \<le> \<bar>coefficient r\<bar> * 10 ^ nat (stage2 c - stage1 c)
            then Inl InvalidOperation else Inr r) \<and>
         (stage2 c \<le> stage1 c \<longrightarrow> Money_round r c = Inr r)"
proof -
  have first: "Money_round r c =
           (if 10 ^ prec \<le> \<bar>coefficient r\<bar> * 10 ^ nat (stage2 c - stage1 c)
            then Inl InvalidOperation else Inr r)"
    using assms by (rule Money_round_again)
  from assms have "\<bar>coefficient r\<bar> < 10 ^ prec"
    by (simp add: Money_round_Inr)
  then have "stage2 c \<le> stage1 c \<longrightarrow> Money_round r c = Inr r"
    using first by simp
  with first show ?thesis by blast
qed

theorem Money_round_idempotent_witness:
  "Money_round (Decimal 55 (- 1)) GNF = Inr (Decimal 6 0) \<and>
   Money_round (Decimal 6 0) GNF = Inr (Decimal 6 0) \<and>
   Money_round (Decimal 3956 (- 3)) USD = Inr (Decimal 396 (- 2)) \<and>
   stage2 USD \<le> stage1 USD \<and>
   Money_round (Decimal 396 (- 2)) USD = Inr (Decimal 396 (- 2))"
proof -
  have r1: "Money_round (Decimal 55 (- 1)) GNF = Inr (Decimal 6 0)"
    by (simp add: round_defs)
  have r2: "Money_round (Decimal 3956 (- 3)) USD = Inr (Decimal 396 (- 2))"
    by (simp add: round_defs)
  show ?thesis
    using Money_round_idempotent [OF r1] Money_round_idempotent [OF r2] r1 r2
    by (simp add: prec_def)
qed

text \<open>
  C2, as stated, fails for a currency such as GNF (100 sub-units, no display decimals):
  99999999999999999999999999.50 rounds to \<open>10^26\<close>, and rounding \<open>10^26\<close> again raises
  \<^verbatim>\<open>decimal.InvalidOperation\<close>, because the first stage pads it to 29 digits.
\<close>

theorem Money_round_idempotent_counterexample:
  "Money_round (Decimal 9999999999999999999999999950 (- 2)) GNF
     = Inr (Decimal 100000000000000000000000000 0) \<and>
   Money_round (Decimal 100000000000000000000000000 0) GNF = Inl InvalidOperation"
  by (simp add: round_defs)

section \<open>Comparison\<close>

lemma scaled_value:
  assumes "m \<le> exponent d"
  shows "of_int (scaled d m) = dec_value d * 10 powi (- m)"
proof -
  have "(10::rat) powi (exponent d) * 10 powi (- m) = 10 powi (exponent d - m)"
    by (simp add: power_int_diff power_int_minus field_simps)
  also have "\<dots> = 10 ^ nat (exponent d - m)"
    using assms by (simp add: power_int_def)
  finally show ?thesis
    by (simp add: scaled_def dec_value_def mult.assoc)
qed

lemma pos10: "0 < (10::rat) powi (- m)"
  by (simp add: zero_less_power_int)

lemma dec_eq_value: "dec_eq a b \<longleftrightarrow> dec_value a = dec_value b"
proof -
  let ?m = "min (exponent a) (exponent b)"
  have "dec_eq a b \<longleftrightarrow> (of_int (scaled a ?m) :: rat) = of_int (scaled b ?m)"
    by (simp add: dec_eq_def Let_def)
  also have "\<dots> \<longleftrightarrow> dec_value a * 10 powi (- ?m) = dec_value b * 10 powi (- ?m)"
    by (simp only: scaled_value [of ?m a] scaled_value [of ?m b] min.cobounded1 min.cobounded2)
  also have "\<dots> \<longleftrightarrow> dec_value a = dec_value b"
    using pos10 [of ?m] by simp
  finally show ?thesis .
qed

lemma dec_less_value: "dec_less a b \<longleftrightarrow> dec_value a < dec_value b"
proof -
  let ?m = "min (exponent a) (exponent b)"
  have "dec_less a b \<longleftrightarrow> (of_int (scaled a ?m) :: rat) < of_int (scaled b ?m)"
    by (simp add: dec_less_def Let_def)
  also have "\<dots> \<longleftrightarrow> dec_value a * 10 powi (- ?m) < dec_value b * 10 powi (- ?m)"
    by (simp only: scaled_value [of ?m a] scaled_value [of ?m b] min.cobounded1 min.cobounded2)
  also have "\<dots> \<longleftrightarrow> dec_value a < dec_value b"
    using pos10 [of ?m] by (rule mult_less_cancel_right_pos)
  finally show ?thesis .
qed

lemma dec_le_value: "dec_le a b \<longleftrightarrow> dec_value a \<le> dec_value b"
proof -
  let ?m = "min (exponent a) (exponent b)"
  have "dec_le a b \<longleftrightarrow> (of_int (scaled a ?m) :: rat) \<le> of_int (scaled b ?m)"
    by (simp add: dec_le_def Let_def)
  also have "\<dots> \<longleftrightarrow> dec_value a * 10 powi (- ?m) \<le> dec_value b * 10 powi (- ?m)"
    by (simp only: scaled_value [of ?m a] scaled_value [of ?m b] min.cobounded1 min.cobounded2)
  also have "\<dots> \<longleftrightarrow> dec_value a \<le> dec_value b"
    using pos10 [of ?m] by (rule mult_le_cancel_right_pos)
  finally show ?thesis .
qed

lemma dec_value_zero: "dec_value d = 0 \<longleftrightarrow> is_zero d"
  by (simp add: dec_value_def is_zero_def)

lemma dec_eq_zero: "dec_eq d (Decimal 0 0) \<longleftrightarrow> is_zero d"
  by (simp add: dec_eq_value dec_value_def is_zero_def)

lemmas compare_defs = Money_lt_def Money_le_def Money_gt_def Money_ge_def Money_eq_def
  Money_ne_def assert_same_currency_def

text \<open>
  C5. Each of the six comparison operators raises \<^verbatim>\<open>InvalidOperandError\<close> for a right
  operand that is not a Money, raises \<^verbatim>\<open>CurrencyMismatchError\<close> for a Money of another
  currency, and for a Money of the same currency returns the comparison of the two
  amounts as numbers, exactly.
\<close>

theorem Money_compare:
  "Money_lt self (Number k) = Inl InvalidOperandError \<and>
   Money_le self (Number k) = Inl InvalidOperandError \<and>
   Money_gt self (Number k) = Inl InvalidOperandError \<and>
   Money_ge self (Number k) = Inl InvalidOperandError \<and>
   Money_eq self (Number k) = Inl InvalidOperandError \<and>
   Money_ne self (Number k) = Inl InvalidOperandError \<and>
   (currency self \<noteq> currency other \<longrightarrow>
      Money_lt self (MoneyOperand other) = Inl CurrencyMismatchError \<and>
      Money_le self (MoneyOperand other) = Inl CurrencyMismatchError \<and>
      Money_gt self (MoneyOperand other) = Inl CurrencyMismatchError \<and>
      Money_ge self (MoneyOperand other) = Inl CurrencyMismatchError \<and>
      Money_eq self (MoneyOperand other) = Inl CurrencyMismatchError \<and>
      Money_ne self (MoneyOperand other) = Inl CurrencyMismatchError) \<and>
   (currency self = currency other \<longrightarrow>
      Money_lt self (MoneyOperand other)
        = Inr (dec_value (amount self) < dec_value (amount other)) \<and>
      Money_le self (MoneyOperand other)
        = Inr (dec_value (amount self) \<le> dec_value (amount other)) \<and>
      Money_gt self (MoneyOperand other)
        = Inr (dec_value (amount self) > dec_value (amount other)) \<and>
      Money_ge self (MoneyOperand other)
        = Inr (dec_value (amount self) \<ge> dec_value (amount other)) \<and>
      Money_eq self (MoneyOperand other)
        = Inr (dec_value (amount self) = dec_value (amount other)) \<and>
      Money_ne self (MoneyOperand other)
        = Inr (dec_value (amount self) \<noteq> dec_value (amount other)))"
  by (simp add: compare_defs dec_less_value dec_le_value dec_eq_value)

theorem Money_compare_witness:
  "currency \<lparr>amount = Decimal 12 (- 1), currency = USD\<rparr>
     \<noteq> currency \<lparr>amount = Decimal 35 (- 1), currency = JPY\<rparr> \<and>
   Money_lt \<lparr>amount = Decimal 12 (- 1), currency = USD\<rparr>
     (MoneyOperand \<lparr>amount = Decimal 35 (- 1), currency = JPY\<rparr>) = Inl CurrencyMismatchError \<and>
   currency \<lparr>amount = Decimal 12 (- 1), currency = USD\<rparr>
     = currency \<lparr>amount = Decimal 350 (- 2), currency = USD\<rparr> \<and>
   Money_lt \<lparr>amount = Decimal 12 (- 1), currency = USD\<rparr>
     (MoneyOperand \<lparr>amount = Decimal 350 (- 2), currency = USD\<rparr>) = Inr True \<and>
   Money_ge \<lparr>amount = Decimal 12 (- 1), currency = USD\<rparr>
     (MoneyOperand \<lparr>amount = Decimal 350 (- 2), currency = USD\<rparr>) = Inr False \<and>
   Money_eq \<lparr>amount = Decimal 12 (- 1), currency = USD\<rparr>
     (Number (Decimal 12 (- 1))) = Inl InvalidOperandError"
  using Money_compare [of "\<lparr>amount = Decimal 12 (- 1), currency = USD\<rparr>" "Decimal 12 (- 1)"
      "\<lparr>amount = Decimal 35 (- 1), currency = JPY\<rparr>"]
    Money_compare [of "\<lparr>amount = Decimal 12 (- 1), currency = USD\<rparr>" "Decimal 12 (- 1)"
      "\<lparr>amount = Decimal 350 (- 2), currency = USD\<rparr>"]
  by (simp add: USD_def JPY_def dec_value_def power_int_minus)

section \<open>Division by a Money of another currency\<close>

text \<open>
  C9. For each of \<^verbatim>\<open>/\<close>, \<^verbatim>\<open>//\<close> and \<^verbatim>\<open>%\<close>, a right operand that is a Money of another
  currency with a zero amount raises \<^verbatim>\<open>CurrencyMismatchError\<close>, not
  \<^verbatim>\<open>ZeroDivisionError\<close>: the currency check comes first.
\<close>

theorem Money_division_currency_first:
  assumes "currency self \<noteq> currency other" and "dec_value (amount other) = 0"
  shows "Money_truediv self (MoneyOperand other) = Inl CurrencyMismatchError \<and>
         Money_floordiv self (MoneyOperand other) = Inl CurrencyMismatchError \<and>
         Money_mod self (MoneyOperand other) = Inl CurrencyMismatchError"
  using assms
  by (simp add: Money_truediv_def Money_floordiv_def Money_mod_def assert_same_currency_def)

theorem Money_division_currency_first_witness:
  "currency \<lparr>amount = Decimal 33 (- 1), currency = USD\<rparr>
     \<noteq> currency \<lparr>amount = Decimal 0 0, currency = JPY\<rparr> \<and>
   dec_value (amount \<lparr>amount = Decimal 0 0, currency = JPY\<rparr>) = 0 \<and>
   Money_truediv \<lparr>amount = Decimal 33 (- 1), currency = USD\<rparr>
     (MoneyOperand \<lparr>amount = Decimal 0 0, currency = JPY\<rparr>) = Inl CurrencyMismatchError \<and>
   Money_floordiv \<lparr>amount = Decimal 33 (- 1), currency = USD\<rparr>
     (MoneyOperand \<lparr>amount = Decimal 0 0, currency = JPY\<rparr>) = Inl CurrencyMismatchError \<and>
   Money_mod \<lparr>amount = Decimal 33 (- 1), currency = USD\<rparr>
     (MoneyOperand \<lparr>amount = Decimal 0 0, currency = JPY\<rparr>) = Inl CurrencyMismatchError"
proof -
  have c: "currency \<lparr>amount = Decimal 33 (- 1), currency = USD\<rparr>
     \<noteq> currency \<lparr>amount = Decimal 0 0, currency = JPY\<rparr>"
    by (simp add: USD_def JPY_def)
  have z: "dec_value (amount \<lparr>amount = Decimal 0 0, currency = JPY\<rparr>) = 0"
    by (simp add: dec_value_def)
  show ?thesis
    using Money_division_currency_first [OF c z] c z by simp
qed

section \<open>A product on a currency without sub-units\<close>

text \<open>
  C8. With JPY registered with sub-unit divisor 1 and display precision 0,
  \<^verbatim>\<open>Money("3", JPY) * 1.4995\<close> is a Money whose amount is exactly 4. The float 1.4995 is
  the number 1.4995000000000000550670620214077644050121307373046875, which
  \<^verbatim>\<open>Decimal(other)\<close> reproduces digit by digit; the product, rounded to 28 digits, is
  4.498500000000000165201186064, and both quantize steps give 4.
\<close>

theorem Money_mul_JPY_example:
  "sub_unit_for_currency JPY = 1 \<and> decimal_precision_for_currency JPY = 0 \<and>
   dec_mul (Decimal 3 0) (Decimal 14995000000000000550670620214077644050121307373046875 (- 52))
     = Decimal 4498500000000000165201186064 (- 27) \<and>
   Money_mul \<lparr>amount = Decimal 3 0, currency = JPY\<rparr>
     (Number (Decimal 14995000000000000550670620214077644050121307373046875 (- 52)))
     = Inr \<lparr>amount = Decimal 4 0, currency = JPY\<rparr>"
proof -
  have registry: "sub_unit_for_currency JPY = 1 \<and> decimal_precision_for_currency JPY = 0"
    by (simp add: JPY_def sub_unit_for_currency_def decimal_precision_for_currency_def)
  have product:
    "dec_mul (Decimal 3 0)
       (Decimal 14995000000000000550670620214077644050121307373046875 (- 52))
     = Decimal 4498500000000000165201186064 (- 27)"
    by (simp add: dec_mul_def dec_fix_def round_half_even_def prec_def Let_def)
  have "Money_mul \<lparr>amount = Decimal 3 0, currency = JPY\<rparr>
     (Number (Decimal 14995000000000000550670620214077644050121307373046875 (- 52)))
     = Inr \<lparr>amount = Decimal 4 0, currency = JPY\<rparr>"
    by (simp add: Money_mul_def rounded_Money_def Money_init_def product round_defs
        dec_eq_def scaled_def)
  with registry product show ?thesis by blast
qed

text \<open>
  On GNF the same product is 5, as \<^verbatim>\<open>test_multiply\<close> expects: the first stage rounds
  4.4985... to 4.50 and the second rounds 4.50 half-up to 5.
\<close>

lemma Money_mul_GNF_example:
  "Money_mul \<lparr>amount = Decimal 3 0, currency = GNF\<rparr>
     (Number (Decimal 14995000000000000550670620214077644050121307373046875 (- 52)))
     = Inr \<lparr>amount = Decimal 5 0, currency = GNF\<rparr>"
proof -
  have product:
    "dec_mul (Decimal 3 0)
       (Decimal 14995000000000000550670620214077644050121307373046875 (- 52))
     = Decimal 4498500000000000165201186064 (- 27)"
    by (simp add: dec_mul_def dec_fix_def round_half_even_def prec_def Let_def)
  show ?thesis
    by (simp add: Money_mul_def rounded_Money_def Money_init_def product round_defs
        dec_eq_def scaled_def)
qed

section \<open>Scalar operators\<close>

lemma dec_eq_refl [simp]: "dec_eq a a"
  by (simp add: dec_eq_def)

lemma rounded_Money_Inr:
  "rounded_Money (Inr v) c =
     (case Money_round v c of
        Inl e \<Rightarrow> Inl InvalidOperation
      | Inr r \<Rightarrow>
          if 10 ^ prec \<le> \<bar>coefficient r\<bar> * 10 ^ nat (stage2 c - stage1 c)
          then Inl InvalidOperation else Inr \<lparr>amount = r, currency = c\<rparr>)"
proof (cases "Money_round v c")
  case (Inl e)
  then have "e = InvalidOperation" by (simp add: Money_round_Inl)
  with Inl show ?thesis by (simp add: rounded_Money_def)
next
  case (Inr r)
  from Money_round_again [OF Inr] Inr show ?thesis
    by (simp add: rounded_Money_def Money_init_def)
qed

lemma dec_truediv_Inr: "\<not> is_zero k \<Longrightarrow> \<exists>q. dec_truediv a k = Inr q"
  by (simp add: dec_truediv_def Let_def)

lemma toward_ideal_numeral:
  "toward_ideal (numeral n) coeff ex =
     (if coeff mod 10 = 0 then toward_ideal (pred_numeral n) (coeff div 10) (ex + 1)
      else Decimal coeff ex)"
  by (simp add: numeral_eq_Suc)

lemma div_6_2: "dec_truediv (Decimal 6 0) (Decimal 2 0) = Inr (Decimal 3 0)"
  unfolding dec_truediv_def is_zero_def
  apply (simp only: decimal.sel Let_def)
  apply (simp add: prec_def toward_ideal_numeral dec_fix_def)
  done

lemma div_big: "dec_truediv (Decimal 9000000000000000000000000000 0) (Decimal 5 (- 1))
   = Inr (Decimal 1800000000000000000000000000 1)"
proof -
  have n: "ndigits 9000000000000000000000000000 = 28" "ndigits 1800000000000000000000000000 = 28"
    "ndigits 5 = 1"
    by simp_all
  show ?thesis
    unfolding dec_truediv_def is_zero_def
    apply (simp only: decimal.sel Let_def)
    apply (simp add: n prec_def toward_ideal_numeral dec_fix_def del: ndigits_numeral)
    done
qed




section \<open>True division\<close>

text \<open>
  C7, as the code has it. Dividing by a Money of another currency raises
  \<^verbatim>\<open>CurrencyMismatchError\<close>; by a Money of the same currency with a zero amount,
  \<^verbatim>\<open>ZeroDivisionError\<close>; by any other Money of the same currency the result is the float of
  the Decimal quotient of the two amounts, not a Money. Dividing by a zero scalar raises
  \<^verbatim>\<open>ZeroDivisionError\<close>. Dividing by a nonzero scalar returns a Money of the same currency
  that holds the two-stage rounding of the quotient, when that rounding is defined and
  can be rounded again, and raises \<^verbatim>\<open>decimal.InvalidOperation\<close> otherwise.
\<close>

theorem Money_truediv_cases:
  "(currency self \<noteq> currency other \<longrightarrow>
      Money_truediv self (MoneyOperand other) = Inl CurrencyMismatchError) \<and>
   (currency self = currency other \<and> dec_value (amount other) = 0 \<longrightarrow>
      Money_truediv self (MoneyOperand other) = Inl ZeroDivisionError) \<and>
   (currency self = currency other \<and> dec_value (amount other) \<noteq> 0 \<longrightarrow>
      (\<exists>q. dec_truediv (amount self) (amount other) = Inr q \<and>
           Money_truediv self (MoneyOperand other) = Inr (RFloat q))) \<and>
   (dec_value k = 0 \<longrightarrow> Money_truediv self (Number k) = Inl ZeroDivisionError) \<and>
   (dec_value k \<noteq> 0 \<longrightarrow>
      (\<exists>q. dec_truediv (amount self) k = Inr q \<and>
           Money_truediv self (Number k) =
             (case Money_round q (currency self) of
                Inl e \<Rightarrow> Inl InvalidOperation
              | Inr r \<Rightarrow>
                  if 10 ^ prec \<le> \<bar>coefficient r\<bar> *
                       10 ^ nat (stage2 (currency self) - stage1 (currency self))
                  then Inl InvalidOperation
                  else Inr (RMoney \<lparr>amount = r, currency = currency self\<rparr>))))"
proof (intro conjI impI)
  assume "currency self \<noteq> currency other"
  then show "Money_truediv self (MoneyOperand other) = Inl CurrencyMismatchError"
    by (simp add: Money_truediv_def assert_same_currency_def)
next
  assume "currency self = currency other \<and> dec_value (amount other) = 0"
  then show "Money_truediv self (MoneyOperand other) = Inl ZeroDivisionError"
    by (simp add: Money_truediv_def assert_same_currency_def dec_eq_zero dec_value_zero)
next
  assume a: "currency self = currency other \<and> dec_value (amount other) \<noteq> 0"
  then have nz: "\<not> is_zero (amount other)" by (simp add: dec_value_zero)
  then obtain q where q: "dec_truediv (amount self) (amount other) = Inr q"
    using dec_truediv_Inr by blast
  with a nz show "\<exists>q. dec_truediv (amount self) (amount other) = Inr q \<and>
           Money_truediv self (MoneyOperand other) = Inr (RFloat q)"
    by (simp add: Money_truediv_def assert_same_currency_def dec_eq_zero)
next
  assume "dec_value k = 0"
  then show "Money_truediv self (Number k) = Inl ZeroDivisionError"
    by (simp add: Money_truediv_def dec_value_zero)
next
  assume "dec_value k \<noteq> 0"
  then have nz: "\<not> is_zero k" by (simp add: dec_value_zero)
  then obtain q where q: "dec_truediv (amount self) k = Inr q"
    using dec_truediv_Inr by blast
  have "Money_truediv self (Number k) =
             (case Money_round q (currency self) of
                Inl e \<Rightarrow> Inl InvalidOperation
              | Inr r \<Rightarrow>
                  if 10 ^ prec \<le> \<bar>coefficient r\<bar> *
                       10 ^ nat (stage2 (currency self) - stage1 (currency self))
                  then Inl InvalidOperation
                  else Inr (RMoney \<lparr>amount = r, currency = currency self\<rparr>))"
    using nz q by (simp add: Money_truediv_def rounded_Money_Inr split: sum.splits)
  with q show "\<exists>q. dec_truediv (amount self) k = Inr q \<and>
           Money_truediv self (Number k) =
             (case Money_round q (currency self) of
                Inl e \<Rightarrow> Inl InvalidOperation
              | Inr r \<Rightarrow>
                  if 10 ^ prec \<le> \<bar>coefficient r\<bar> *
                       10 ^ nat (stage2 (currency self) - stage1 (currency self))
                  then Inl InvalidOperation
                  else Inr (RMoney \<lparr>amount = r, currency = currency self\<rparr>))"
    by blast
qed

theorem Money_truediv_cases_witness:
  "currency \<lparr>amount = Decimal 6 0, currency = JPY\<rparr>
     \<noteq> currency \<lparr>amount = Decimal 2 0, currency = USD\<rparr> \<and>
   Money_truediv \<lparr>amount = Decimal 6 0, currency = JPY\<rparr>
     (MoneyOperand \<lparr>amount = Decimal 2 0, currency = USD\<rparr>) = Inl CurrencyMismatchError \<and>
   dec_value (amount \<lparr>amount = Decimal 0 0, currency = JPY\<rparr>) = 0 \<and>
   Money_truediv \<lparr>amount = Decimal 6 0, currency = JPY\<rparr>
     (MoneyOperand \<lparr>amount = Decimal 0 0, currency = JPY\<rparr>) = Inl ZeroDivisionError \<and>
   dec_value (amount \<lparr>amount = Decimal 2 0, currency = JPY\<rparr>) \<noteq> 0 \<and>
   Money_truediv \<lparr>amount = Decimal 6 0, currency = JPY\<rparr>
     (MoneyOperand \<lparr>amount = Decimal 2 0, currency = JPY\<rparr>) = Inr (RFloat (Decimal 3 0)) \<and>
   dec_value (Decimal 0 0) = 0 \<and>
   Money_truediv \<lparr>amount = Decimal 6 0, currency = JPY\<rparr> (Number (Decimal 0 0))
     = Inl ZeroDivisionError \<and>
   dec_value (Decimal 2 0) \<noteq> 0 \<and>
   Money_truediv \<lparr>amount = Decimal 6 0, currency = JPY\<rparr> (Number (Decimal 2 0))
     = Inr (RMoney \<lparr>amount = Decimal 3 0, currency = JPY\<rparr>)"
proof -
  have r: "Money_round (Decimal 3 0) JPY = Inr (Decimal 3 0)"
    by (simp add: round_defs)
  have c: "JPY \<noteq> USD"
    by (simp add: JPY_def USD_def)
  show ?thesis
    using Money_truediv_cases [of "\<lparr>amount = Decimal 6 0, currency = JPY\<rparr>"
        "\<lparr>amount = Decimal 2 0, currency = USD\<rparr>" "Decimal 0 0"]
      Money_truediv_cases [of "\<lparr>amount = Decimal 6 0, currency = JPY\<rparr>"
        "\<lparr>amount = Decimal 0 0, currency = JPY\<rparr>" "Decimal 2 0"]
      Money_truediv_cases [of "\<lparr>amount = Decimal 6 0, currency = JPY\<rparr>"
        "\<lparr>amount = Decimal 2 0, currency = JPY\<rparr>" "Decimal 2 0"]
    by (simp add: c div_6_2 r dec_value_def prec_def)
qed

text \<open>
  C7, as stated, fails in its last part: \<^verbatim>\<open>Money("9000000000000000000000000000", JPY) / 0.5\<close>
  has a nonzero scalar and returns no Money. The quotient has 29 digits and quantize raises
  \<^verbatim>\<open>decimal.InvalidOperation\<close>.
\<close>

theorem Money_truediv_counterexample:
  "\<not> is_zero (Decimal 5 (- 1)) \<and>
   Money_truediv \<lparr>amount = Decimal 9000000000000000000000000000 0, currency = JPY\<rparr>
     (Number (Decimal 5 (- 1))) = Inl InvalidOperation"
  by (simp add: Money_truediv_def is_zero_def div_big rounded_Money_def round_defs)

section \<open>Digits, values and multiples of a quantum\<close>

lemma ndigits_upper: "n < 10 ^ ndigits n"
proof (induction n rule: ndigits.induct)
  case (1 n)
  show ?case
  proof (cases "n < 10")
    case True
    then show ?thesis by (subst ndigits.simps) simp
  next
    case False
    with 1 have "n div 10 < 10 ^ ndigits (n div 10)" by simp
    then have "n < 10 * 10 ^ ndigits (n div 10)" by simp
    with False show ?thesis by (subst ndigits.simps) simp
  qed
qed

lemma ndigits_lower: "0 < n \<Longrightarrow> 10 ^ (ndigits n - 1) \<le> n"
proof (induction n rule: ndigits.induct)
  case (1 n)
  show ?case
  proof (cases "n < 10")
    case True
    with 1 show ?thesis by (subst ndigits.simps) simp
  next
    case False
    then have pos: "0 < n div 10" by simp
    with 1 False have "10 ^ (ndigits (n div 10) - 1) \<le> n div 10" by simp
    then have "10 * 10 ^ (ndigits (n div 10) - 1) \<le> n" by simp
    moreover have "0 < ndigits (n div 10)"
      by (subst ndigits.simps) simp
    then have "(10::nat) ^ ndigits (n div 10) = 10 * 10 ^ (ndigits (n div 10) - 1)"
      by (cases "ndigits (n div 10)") simp_all
    ultimately show ?thesis using False by (subst ndigits.simps) simp
  qed
qed

lemma ndigits_le_iff: "ndigits n \<le> k \<Longrightarrow> n < 10 ^ k"
proof -
  assume "ndigits n \<le> k"
  then have "(10::nat) ^ ndigits n \<le> 10 ^ k" by (simp add: power_increasing)
  with ndigits_upper [of n] show ?thesis by (rule less_le_trans)
qed

lemma power_int_split:
  assumes "e \<le> t"
  shows "(10::rat) powi t = 10 powi e * 10 ^ nat (t - e)"
proof -
  have "(10::rat) powi t = 10 powi (e + (t - e))" by simp
  also have "\<dots> = 10 powi e * 10 powi (t - e)"
    by (rule power_int_add) simp
  also have "10 powi (t - e) = (10::rat) ^ nat (t - e)"
    using assms by (simp add: power_int_def)
  finally show ?thesis .
qed

lemma value_eq_core:
  assumes "e \<le> t"
  shows "(of_int c * (10::rat) powi e = of_int z * 10 powi t) \<longleftrightarrow> c = z * 10 ^ nat (t - e)"
proof -
  have nz: "(10::rat) powi e \<noteq> 0" by simp
  have "(of_int c * (10::rat) powi e = of_int z * 10 powi t)
      \<longleftrightarrow> (of_int c * (10::rat) powi e = of_int (z * 10 ^ nat (t - e)) * 10 powi e)"
    by (simp add: power_int_split [OF assms] mult_ac)
  also have "\<dots> \<longleftrightarrow> (of_int c :: rat) = of_int (z * 10 ^ nat (t - e))"
    using nz by (simp only: mult_cancel_right) simp
  also have "\<dots> \<longleftrightarrow> c = z * 10 ^ nat (t - e)"
    by (simp only: of_int_eq_iff)
  finally show ?thesis .
qed

lemma aligned_value: "aligned d t \<longleftrightarrow> (\<exists>z. dec_value d = of_int z * 10 powi t)"
proof (cases "exponent d \<le> t")
  case True
  show ?thesis
    unfolding aligned_def dec_value_def value_eq_core [OF True]
    by (auto simp: dvd_def mult.commute)
next
  case False
  then have le: "t \<le> exponent d" by simp
  have "of_int (coefficient d * 10 ^ nat (exponent d - t)) * (10::rat) powi t
          = of_int (coefficient d) * 10 powi exponent d"
    by (subst value_eq_core [OF le]) (rule refl)
  then have "dec_value d = of_int (coefficient d * 10 ^ nat (exponent d - t)) * 10 powi t"
    by (simp only: dec_value_def)
  then have "\<exists>z. dec_value d = of_int z * 10 powi t" by blast
  moreover have "aligned d t" using False by (simp add: aligned_def)
  ultimately show ?thesis by simp
qed


lemma aligned_cong: "dec_value x = dec_value y \<Longrightarrow> aligned x t \<Longrightarrow> aligned y t"
  by (simp add: aligned_value)

lemma aligned_mono:
  assumes "aligned d t" and "t' \<le> t"
  shows "aligned d t'"
proof -
  from assms obtain z where "dec_value d = of_int z * 10 powi t"
    by (auto simp: aligned_value)
  then have "dec_value d = of_int (z * 10 ^ nat (t - t')) * 10 powi t'"
    by (simp add: power_int_split [OF assms(2)] mult_ac)
  then show ?thesis unfolding aligned_value by blast
qed

lemma aligned_dvd:
  "aligned d t \<Longrightarrow> 10 ^ nat (t - exponent d) dvd coefficient d"
  by (simp add: aligned_def)

lemma rescale_value_pad:
  assumes "t \<le> exponent d"
  shows "dec_value (rescale d t) = dec_value d"
proof -
  have "of_int (coefficient d * 10 ^ nat (exponent d - t)) * (10::rat) powi t
          = of_int (coefficient d) * 10 powi exponent d"
    by (subst value_eq_core [OF assms]) (rule refl)
  with assms show ?thesis by (simp add: rescale_def dec_value_def)
qed

lemma rescale_value_aligned:
  assumes "aligned d t"
  shows "dec_value (rescale d t) = dec_value d"
proof (cases "t \<le> exponent d")
  case True
  then show ?thesis by (rule rescale_value_pad)
next
  case False
  then have le: "exponent d \<le> t" by simp
  from assms obtain z where z: "coefficient d = z * 10 ^ nat (t - exponent d)"
    by (auto simp: aligned_def dvd_def mult.commute)
  have "round_half_up (z * 10 ^ nat (t - exponent d)) (10 ^ nat (t - exponent d)) = z"
    by (rule round_half_up_mult) simp
  then have "rescale d t = Decimal z t"
    using False z by (simp add: rescale_def)
  moreover have "of_int (coefficient d) * (10::rat) powi exponent d = of_int z * 10 powi t"
    by (subst value_eq_core [OF le]) (rule z)
  ultimately show ?thesis by (simp add: dec_value_def)
qed


lemma canonical_iff:
  "canonical m \<longleftrightarrow> (\<exists>r. Money_round (amount m) (currency m) = Inr r \<and> dec_eq r (amount m))"
  by (auto simp: canonical_def split: sum.splits)


lemma round_aligned_exact:
  assumes "aligned w (stage1 c)" and "aligned w (stage2 c)" and "Money_round w c = Inr r"
  shows "dec_eq r w"
proof -
  let ?s = "rescale w (stage1 c)"
  have s: "dec_value ?s = dec_value w"
    using assms(1) by (rule rescale_value_aligned)
  then have "aligned ?s (stage2 c)"
    using assms(2) aligned_cong [of w ?s] by simp
  then have "dec_value (rescale ?s (stage2 c)) = dec_value ?s"
    by (rule rescale_value_aligned)
  moreover have "r = rescale ?s (stage2 c)"
    using assms(3) by (simp add: Money_round_Inr)
  ultimately show ?thesis using s by (simp add: dec_eq_value)
qed

lemma Money_init_canonical:
  assumes "Money_init a c False = Inr m"
  shows "canonical m \<and> currency m = c \<and> amount m = a"
  using assms
  by (auto simp: Money_init_def canonical_iff split: sum.splits if_splits)

lemma Money_init_strict_aligned:
  assumes "aligned w (stage1 c)" and "aligned w (stage2 c)"
  shows "Money_init w c False =
           (case Money_round w c of
              Inl e \<Rightarrow> Inl InvalidOperation
            | Inr r \<Rightarrow> Inr \<lparr>amount = w, currency = c\<rparr>)"
proof (cases "Money_round w c")
  case (Inl e)
  then have "e = InvalidOperation" by (simp add: Money_round_Inl)
  with Inl show ?thesis by (simp add: Money_init_def)
next
  case (Inr r)
  with assms have "dec_eq r w" by (rule round_aligned_exact)
  with Inr show ?thesis by (simp add: Money_init_def)
qed


lemma abs_sgn_mult: "c \<noteq> 0 \<Longrightarrow> \<bar>sgn c * x\<bar> = \<bar>x\<bar>" for c x :: int
  by (simp add: abs_mult)

text \<open>A coefficient of more than \<open>prec\<close> digits, cut to its leading \<open>prec\<close> digits.\<close>

lemma long_coefficient:
  fixes c :: int
  assumes "prec < ndigits (nat \<bar>c\<bar>)"
  shows "c \<noteq> 0"
    and "10 ^ (prec - 1) \<le> \<bar>c\<bar> div 10 ^ (ndigits (nat \<bar>c\<bar>) - prec)"
    and "\<bar>c\<bar> div 10 ^ (ndigits (nat \<bar>c\<bar>) - prec) < 10 ^ prec"
proof -
  define n where "n = ndigits (nat \<bar>c\<bar>)"
  define k where "k = n - prec"
  define M :: int where "M = 10 ^ k"
  have pp: "0 < prec" by (simp add: prec_def)
  have n: "n = prec + k" using assms by (simp add: n_def k_def)
  have M: "0 < M" by (simp add: M_def)
  show cnz: "c \<noteq> 0"
  proof
    assume "c = 0"
    then have "n = 1" by (simp add: n_def)
    with assms pp show False by (simp add: n_def)
  qed
  then have npos: "0 < nat \<bar>c\<bar>" by simp
  have "10 ^ (n - 1) \<le> nat \<bar>c\<bar>"
    unfolding n_def using npos by (rule ndigits_lower)
  then have "int (10 ^ (n - 1)) \<le> \<bar>c\<bar>" by linarith
  moreover have "n - 1 = (prec - 1) + k" using n pp by simp
  ultimately have low: "10 ^ (prec - 1) * M \<le> \<bar>c\<bar>"
    by (simp add: M_def power_add)
  have "nat \<bar>c\<bar> < 10 ^ n" unfolding n_def by (rule ndigits_upper)
  then have "\<bar>c\<bar> < int (10 ^ n)" by linarith
  then have up: "\<bar>c\<bar> < 10 ^ prec * M"
    using n by (simp add: M_def power_add)
  have "(10 ^ (prec - 1) * M) div M \<le> \<bar>c\<bar> div M"
    using low M by (rule zdiv_mono1)
  then have "10 ^ (prec - 1) \<le> \<bar>c\<bar> div M" using M by simp
  then show "10 ^ (prec - 1) \<le> \<bar>c\<bar> div 10 ^ (ndigits (nat \<bar>c\<bar>) - prec)"
    by (simp add: M_def k_def n_def)
  have "\<bar>c\<bar> div M < 10 ^ prec"
  proof (rule ccontr)
    assume "\<not> \<bar>c\<bar> div M < 10 ^ prec"
    then have "10 ^ prec * M \<le> \<bar>c\<bar> div M * M" using M by simp
    also have "\<bar>c\<bar> div M * M \<le> \<bar>c\<bar>"
    proof -
      have "\<bar>c\<bar> div M * M + \<bar>c\<bar> mod M = \<bar>c\<bar>" by (rule div_mult_mod_eq)
      moreover have "0 \<le> \<bar>c\<bar> mod M" using M by (rule pos_mod_sign)
      ultimately show ?thesis by linarith
    qed
    finally show False using up by simp
  qed
  then show "\<bar>c\<bar> div 10 ^ (ndigits (nat \<bar>c\<bar>) - prec) < 10 ^ prec"
    by (simp add: M_def k_def n_def)
qed

text \<open>
  The context rounding is exact when the digits it drops are zeros: the coefficient has
  at most \<open>prec\<close> digits, or it is divisible by the power of ten that is dropped.
\<close>

lemma dec_fix_exact:
  assumes "prec < ndigits (nat \<bar>coefficient d\<bar>) \<Longrightarrow>
             10 ^ (ndigits (nat \<bar>coefficient d\<bar>) - prec) dvd coefficient d"
  shows "dec_value (dec_fix d) = dec_value d"
proof (cases "ndigits (nat \<bar>coefficient d\<bar>) \<le> prec")
  case True
  then show ?thesis by (simp add: dec_fix_def)
next
  case False
  define c where "c = coefficient d"
  define k where "k = ndigits (nat \<bar>c\<bar>) - prec"
  define M :: int where "M = 10 ^ k"
  define q where "q = \<bar>c\<bar> div M"
  define R where "R = round_half_even c M"
  from False have long: "prec < ndigits (nat \<bar>c\<bar>)" by (simp add: c_def)
  from long_coefficient [OF long]
  have cnz: "c \<noteq> 0" and qlow: "10 ^ (prec - 1) \<le> q" and qup: "q < 10 ^ prec"
    by (simp_all add: q_def M_def k_def)
  have "(0::int) < 10 ^ (prec - 1)" by simp
  with qlow have qnn: "0 \<le> q" by linarith
  have M: "0 < M" by (simp add: M_def)
  from assms long have dvd: "M dvd c" by (simp add: c_def M_def k_def)
  then have "\<bar>c\<bar> mod M = 0" by simp
  then have R: "R = sgn c * q"
    using M by (simp add: R_def round_half_even_def q_def Let_def)
  then have "\<bar>R\<bar> = q" using cnz qnn by (simp add: abs_sgn_mult)
  with qup False have w: "dec_fix d = Decimal R (exponent d + int k)"
    by (simp add: dec_fix_def Let_def R_def M_def k_def c_def)
  from dvd have "\<bar>c\<bar> = q * M" by (simp add: q_def)
  then have "sgn c * \<bar>c\<bar> = R * M" by (simp add: R)
  then have "c = R * 10 ^ k" by (simp add: M_def sgn_mult_abs)
  then have "coefficient d = R * 10 ^ nat (exponent d + int k - exponent d)"
    by (simp add: c_def)
  then have "of_int (coefficient d) * (10::rat) powi exponent d
               = of_int R * 10 powi (exponent d + int k)"
    by (subst value_eq_core) simp_all
  then show ?thesis by (simp add: w dec_value_def)
qed


section \<open>Arithmetic results and the strict constructor\<close>






lemma aligned_neg:
  assumes "aligned a t"
  shows "aligned (Decimal (- coefficient a) (exponent a)) t"
    and "aligned (Decimal \<bar>coefficient a\<bar> (exponent a)) t"
  using assms by (simp_all add: aligned_def)

lemma ndigits_le:
  assumes "n < 10 ^ p" and "0 < p"
  shows "ndigits n \<le> p"
proof (cases "n = 0")
  case True
  with assms show ?thesis by simp
next
  case False
  then have "10 ^ (ndigits n - 1) \<le> n" by (intro ndigits_lower) simp
  from this assms(1) have "(10::nat) ^ (ndigits n - 1) < 10 ^ p" by (rule le_less_trans)
  then have "ndigits n - 1 < p" by (simp only: power_strict_increasing_iff one_less_numeral_iff num.simps semiring_norm)
  then show ?thesis by simp
qed

lemma rescale_coeff_value:
  assumes "aligned d t"
  shows "of_int (coefficient (rescale d t)) = dec_value d * 10 powi (- t)"
proof -
  have "dec_value (rescale d t) = of_int (coefficient (rescale d t)) * 10 powi t"
    by (simp add: dec_value_def)
  with rescale_value_aligned [OF assms]
  have "dec_value d * 10 powi (- t)
          = of_int (coefficient (rescale d t)) * (10 powi t * 10 powi (- t))"
    by (simp add: mult.assoc)
  then show ?thesis by (simp add: power_int_minus)
qed



lemma fix_exact_of_bound:
  assumes "aligned a t" and "\<bar>coefficient (rescale a t)\<bar> < 10 ^ prec"
    and "\<bar>coefficient S\<bar> = \<bar>coefficient a\<bar>"
  shows "dec_value (dec_fix S) = dec_value S"
proof (rule dec_fix_exact)
  assume long: "prec < ndigits (nat \<bar>coefficient S\<bar>)"
  define j where "j = nat (t - exponent a)"
  have pp: "0 < prec" by (simp add: prec_def)
  from assms(1) obtain z where z: "coefficient a = z * 10 ^ j"
    by (auto simp: aligned_def dvd_def j_def mult.commute)
  have zb: "\<bar>z\<bar> < 10 ^ prec"
  proof (cases "t \<le> exponent a")
    case True
    then have "j = 0" by (simp add: j_def)
    with z have "coefficient a = z" by simp
    moreover have "\<bar>coefficient a\<bar> * 1 \<le> \<bar>coefficient a\<bar> * 10 ^ nat (exponent a - t)"
      by (intro mult_left_mono) simp_all
    ultimately show ?thesis using assms(2) True by (simp add: rescale_def abs_mult)
  next
    case False
    have "round_half_up (z * 10 ^ j) (10 ^ j) = z"
      by (rule round_half_up_mult) simp
    with False z assms(2) show ?thesis by (simp add: rescale_def j_def)
  qed
  have "\<bar>coefficient S\<bar> = \<bar>z\<bar> * 10 ^ j" using z assms(3) by (simp add: abs_mult)
  also have "\<dots> < 10 ^ prec * 10 ^ j" using zb by simp
  finally have "\<bar>coefficient S\<bar> < 10 ^ (prec + j)" by (simp add: power_add)
  then have "nat \<bar>coefficient S\<bar> < 10 ^ (prec + j)"
    by (simp add: nat_less_iff)
  then have "ndigits (nat \<bar>coefficient S\<bar>) \<le> prec + j"
    using pp by (intro ndigits_le) simp_all
  then have "ndigits (nat \<bar>coefficient S\<bar>) - prec \<le> j" by simp
  then have "(10::int) ^ (ndigits (nat \<bar>coefficient S\<bar>) - prec) dvd 10 ^ j"
    by (rule le_imp_power_dvd)
  also have "(10::int) ^ j dvd \<bar>coefficient S\<bar>"
    using z assms(3) by (simp add: abs_mult)
  finally show "10 ^ (ndigits (nat \<bar>coefficient S\<bar>) - prec) dvd coefficient S"
    by simp
qed













section \<open>Sub-units\<close>

lemma ilog10_power: "ilog10 (10 ^ K) = K"
proof (induction K)
  case 0
  show ?case by simp
next
  case (Suc K)
  have "\<not> (10::nat) ^ Suc K < 10" by simp
  moreover have "(10::nat) ^ Suc K div 10 = 10 ^ K" by simp
  ultimately show ?case using Suc by (subst ilog10.simps) (simp only: if_False)
qed

lemma float_quantum_small: "j < 10 \<Longrightarrow> float_quantum j = - int j"
proof -
  assume j: "j < 10"
  have "rstrip0 j = j"
  proof (cases "j = 0")
    case True
    then show ?thesis by simp
  next
    case False
    with j have "j mod 10 \<noteq> 0" by simp
    then show ?thesis by (subst rstrip0.simps) simp
  qed
  with j show ?thesis by (simp add: float_quantum_def)
qed

lemma toward_ideal_value:
  "dec_value (toward_ideal j c e) = of_int c * 10 powi e"
proof (induction j arbitrary: c e)
  case 0
  show ?case by (simp add: dec_value_def)
next
  case (Suc j)
  show ?case
  proof (cases "c mod 10 = 0")
    case True
    then have c: "c = (c div 10) * 10 ^ nat (e + 1 - e)" by auto
    have "of_int c * (10::rat) powi e = of_int (c div 10) * 10 powi (e + 1)"
      by (subst value_eq_core) (use c in simp_all)
    with True Suc show ?thesis by simp
  next
    case False
    then show ?thesis by (simp add: dec_value_def)
  qed
qed

lemma to_int_integer:
  assumes "dec_value d = of_int n"
  shows "to_int d = n"
proof (cases "0 \<le> exponent d")
  case True
  have "of_int n * (10::rat) powi 0 = of_int (coefficient d) * 10 powi exponent d"
    using assms by (simp add: dec_value_def)
  then have "n = coefficient d * 10 ^ nat (exponent d - 0)"
    by (subst (asm) value_eq_core) (use True in simp_all)
  with True show ?thesis by (simp add: to_int_def)
next
  case False
  then have le: "exponent d \<le> 0" by simp
  define M :: int where "M = 10 ^ nat (0 - exponent d)"
  have M: "0 < M" by (simp add: M_def)
  have "of_int (coefficient d) * (10::rat) powi exponent d = of_int n * 10 powi 0"
    using assms by (simp add: dec_value_def)
  then have c: "coefficient d = n * M"
    unfolding M_def by (subst (asm) value_eq_core) (use le in simp_all)
  then have "\<bar>coefficient d\<bar> div M = \<bar>n\<bar>"
    using M by (simp add: abs_mult)
  moreover have "sgn (coefficient d) = sgn n"
    using M c by (simp add: sgn_mult)
  ultimately show ?thesis using False by (simp add: to_int_def M_def sgn_mult_abs)
qed

lemma ndigits_power10: "K < ndigits (10 ^ K)"
proof -
  have "(10::nat) ^ K < 10 ^ ndigits (10 ^ K)" by (rule ndigits_upper)
  then show ?thesis by (simp only: power_strict_increasing_iff one_less_numeral_iff num.simps semiring_norm)
qed

lemma dec_value_sign:
  "dec_value (Decimal (s * coefficient q) (exponent q)) = of_int s * dec_value q"
  by (simp add: dec_value_def)

lemma truediv_sub_units:
  assumes "\<bar>n\<bar> < 10 ^ prec"
  shows "\<exists>P. dec_truediv (Decimal n 0) (Decimal (10 ^ K) 0) = Inr (dec_fix P) \<and>
             dec_value P = of_int n * 10 powi (- int K)"
proof (cases "n = 0")
  case True
  then have "dec_truediv (Decimal n 0) (Decimal (10 ^ K) 0) = Inr (dec_fix (Decimal 0 0))"
    by (simp add: dec_truediv_def is_zero_def)
  moreover have "dec_value (Decimal 0 0) = of_int n * 10 powi (- int K)"
    using True by (simp add: dec_value_def)
  ultimately show ?thesis by blast
next
  case False
  define sh where "sh = int (ndigits (10 ^ K)) - int (ndigits (nat \<bar>n\<bar>)) + int prec + 1"
  have pp: "0 < prec" by (simp add: prec_def)
  have "nat \<bar>n\<bar> < 10 ^ prec" using assms by (simp add: nat_less_iff)
  then have "ndigits (nat \<bar>n\<bar>) \<le> prec" using pp by (rule ndigits_le)
  with ndigits_power10 [of K] have sh: "int K + 2 \<le> sh" by (simp add: sh_def)
  define j where "j = nat sh - K"
  from sh have nsh: "nat sh = K + j" and sh0: "0 \<le> sh" by (simp_all add: j_def)
  have num: "\<bar>n\<bar> * 10 ^ nat sh = (\<bar>n\<bar> * 10 ^ j) * 10 ^ K"
    by (simp add: nsh power_add)
  have dv: "(\<bar>n\<bar> * 10 ^ nat sh) div 10 ^ K = \<bar>n\<bar> * 10 ^ j"
    and md: "(\<bar>n\<bar> * 10 ^ nat sh) mod 10 ^ K = 0"
    unfolding num by simp_all
  define q where "q = toward_ideal (nat sh) (\<bar>n\<bar> * 10 ^ j) (- sh)"
  define P where "P = Decimal (sgn n * coefficient q) (exponent q)"
  have "dec_truediv (Decimal n 0) (Decimal (10 ^ K) 0) = Inr (dec_fix P)"
  proof -
    have count: "nat (1 - (int (ndigits (nat \<bar>n\<bar>)) - int (ndigits (10 ^ K)) - int prec))
        = nat (int (ndigits (10 ^ K)) - int (ndigits (nat \<bar>n\<bar>)) + int prec + 1)"
      by (rule arg_cong [where f = nat]) simp
    show ?thesis
      using False sh0 dv md
      by (simp add: dec_truediv_def is_zero_def Let_def P_def q_def sh_def nat_power_eq count)
  qed
  moreover have "dec_value P = of_int n * 10 powi (- int K)"
  proof -
    have shj: "sh = int K + int j" using nsh sh0 by linarith
    have "of_int (\<bar>n\<bar> * 10 ^ j) * (10::rat) powi (- sh) = of_int \<bar>n\<bar> * 10 powi (- int K)"
      by (subst value_eq_core) (simp_all add: shj)
    then have "dec_value q = of_int \<bar>n\<bar> * 10 powi (- int K)"
      by (simp add: q_def toward_ideal_value)
    then have "dec_value P = of_int (sgn n * \<bar>n\<bar>) * 10 powi (- int K)"
      by (simp add: P_def dec_value_sign)
    then show ?thesis by (simp add: sgn_mult_abs)
  qed
  ultimately show ?thesis by blast
qed

lemma rescale_coeff_of_value:
  assumes "dec_value d = of_int z * 10 powi t"
  shows "coefficient (rescale d t) = z"
proof -
  from assms have "aligned d t" unfolding aligned_value by blast
  then have "of_int (coefficient (rescale d t)) = dec_value d * 10 powi (- t)"
    by (rule rescale_coeff_value)
  also have "\<dots> = of_int z * (10 powi t * 10 powi (- t))"
    by (simp add: assms mult.assoc)
  also have "\<dots> = of_int z" by (simp add: power_int_minus)
  finally show ?thesis by (simp only: of_int_eq_iff)
qed

lemma fix_of_short_value:
  assumes "dec_value X = of_int z * 10 powi t" and "\<bar>z\<bar> < 10 ^ prec"
  shows "dec_value (dec_fix X) = dec_value X"
proof -
  from assms(1) have "aligned X t" unfolding aligned_value by blast
  moreover have "\<bar>coefficient (rescale X t)\<bar> < 10 ^ prec"
    using assms by (simp add: rescale_coeff_of_value)
  ultimately show ?thesis by (rule fix_exact_of_bound) simp
qed

lemma from_sub_units_roundtrip:
  assumes sub: "sub_unit c = 10 ^ K"
    and s1: "stage1 c = - int K" and s2: "stage2 c \<le> stage1 c"
    and bound: "\<bar>n\<bar> * 10 ^ nat (stage1 c - stage2 c) < 10 ^ prec"
  shows "\<exists>m. from_sub_units n c = Inr m \<and> canonical m \<and> currency m = c \<and>
             dec_value (amount m) = of_int n * 10 powi (- int K) \<and> sub_units m = n"
proof -
  let ?t1 = "stage1 c" and ?t2 = "stage2 c"
  have "\<bar>n\<bar> * 1 \<le> \<bar>n\<bar> * 10 ^ nat (?t1 - ?t2)"
    by (intro mult_left_mono) simp_all
  with bound have nb: "\<bar>n\<bar> < 10 ^ prec" by simp
  from truediv_sub_units [OF nb, of K] obtain P
    where div: "dec_truediv (Decimal n 0) (Decimal (10 ^ K) 0) = Inr (dec_fix P)"
      and vP: "dec_value P = of_int n * 10 powi ?t1"
    by (auto simp: s1)
  let ?w = "dec_fix P"
  have init: "from_sub_units n c = Money_init ?w c False"
    by (simp add: from_sub_units_def sub_unit_for_currency_def sub div)
  have vw: "dec_value ?w = of_int n * 10 powi ?t1"
    using fix_of_short_value [OF vP nb] vP by simp
  then have a1: "aligned ?w ?t1" unfolding aligned_value by blast
  then have a2: "aligned ?w ?t2" using s2 by (rule aligned_mono)
  have c1: "coefficient (rescale ?w ?t1) = n"
    using vw by (rule rescale_coeff_of_value)
  have "dec_value (rescale ?w ?t1) = dec_value ?w"
    using a1 by (rule rescale_value_aligned)
  moreover have "of_int (n * 10 ^ nat (?t1 - ?t2)) * (10::rat) powi ?t2 = of_int n * 10 powi ?t1"
    by (subst value_eq_core [OF s2]) (rule refl)
  ultimately have "dec_value (rescale ?w ?t1) = of_int (n * 10 ^ nat (?t1 - ?t2)) * 10 powi ?t2"
    using vw by (simp only:)
  then have c2: "coefficient (rescale (rescale ?w ?t1) ?t2) = n * 10 ^ nat (?t1 - ?t2)"
    by (rule rescale_coeff_of_value)
  have "\<exists>r. Money_round ?w c = Inr r"
    using nb bound by (simp add: Money_round_Inr c1 c2 abs_mult)
  then have m: "from_sub_units n c = Inr \<lparr>amount = ?w, currency = c\<rparr>"
    by (auto simp: init Money_init_strict_aligned [OF a1 a2])
  then have can: "canonical \<lparr>amount = ?w, currency = c\<rparr>"
    using Money_init_canonical [of ?w c "\<lparr>amount = ?w, currency = c\<rparr>"] by (simp add: init)
  let ?X = "Decimal (coefficient ?w * 10 ^ K) (exponent ?w)"
  have vX: "dec_value ?X = of_int n * 10 powi 0"
  proof -
    have "dec_value ?X = dec_value ?w * 10 ^ K" by (simp add: dec_value_def)
    also have "\<dots> = of_int n * (10 powi (- int K) * 10 powi (int K))"
      by (simp add: vw s1 power_int_def)
    also have "\<dots> = of_int n * 10 powi 0" by (simp add: power_int_minus)
    finally show ?thesis .
  qed
  have "dec_value (dec_fix ?X) = of_int n"
    using fix_of_short_value [OF vX nb] vX by simp
  then have "to_int (dec_fix ?X) = n" by (rule to_int_integer)
  then have "sub_units \<lparr>amount = ?w, currency = c\<rparr> = n"
    by (simp add: sub_units_def sub_unit_for_currency_def sub dec_mul_def)
  with m can vw s1 show ?thesis by simp
qed

lemma stages_of_registry:
  assumes "sub_unit c = 10 ^ K" and "K \<le> decimal_precision c" and "decimal_precision c < 10"
  shows "stage1 c = - int K" and "stage2 c \<le> stage1 c"
proof -
  from assms have K: "K < 10" by simp
  show 1: "stage1 c = - int K"
    by (simp add: stage1_def sub_unit_for_currency_def assms(1) quantum_exponent_def
        ilog10_power float_quantum_small [OF K])
  have "stage2 c = - int (decimal_precision c)"
    by (simp add: stage2_def decimal_precision_for_currency_def quantum_exponent_def
        ilog10_power float_quantum_small [OF assms(3)])
  with 1 assms(2) show "stage2 c \<le> stage1 c" by simp
qed

lemma div_101_100: "dec_truediv (Decimal 101 0) (Decimal 100 0) = Inr (Decimal 101 (- 2))"
  unfolding dec_truediv_def is_zero_def
  apply (simp only: decimal.sel Let_def)
  apply (simp add: prec_def toward_ideal_numeral dec_fix_def)
  done

lemma div_m101_100: "dec_truediv (Decimal (- 101) 0) (Decimal 100 0) = Inr (Decimal (- 101) (- 2))"
  unfolding dec_truediv_def is_zero_def
  apply (simp only: decimal.sel Let_def)
  apply (simp add: prec_def toward_ideal_numeral dec_fix_def)
  done

lemma div_150_100: "dec_truediv (Decimal 150 0) (Decimal 100 0) = Inr (Decimal 15 (- 1))"
  unfolding dec_truediv_def is_zero_def
  apply (simp only: decimal.sel Let_def)
  apply (simp add: prec_def toward_ideal_numeral dec_fix_def)
  done

lemma div_m1e28_100:
  "dec_truediv (Decimal (- 10000000000000000000000000000) 0) (Decimal 100 0)
     = Inr (Decimal (- 100000000000000000000000000) 0)"
proof -
  have n: "ndigits 10000000000000000000000000000 = 29"
    "ndigits 100000000000000000000000000 = 27" "ndigits 100 = 3"
    by simp_all
  show ?thesis
    unfolding dec_truediv_def is_zero_def
    apply (simp only: decimal.sel Let_def)
    apply (simp add: n prec_def toward_ideal_numeral dec_fix_def del: ndigits_numeral)
    done
qed

text \<open>
  C4, as the code has it. Let the currency have \<open>10^K\<close> sub-units per unit, let the first
  quantum of \<^verbatim>\<open>_round\<close> be one sub-unit (\<open>stage1 c = -K\<close>) and the second quantum not
  coarser (\<open>stage2 c \<le> stage1 c\<close>); both hold when \<open>K \<le> decimal_precision c < 10\<close>. Then
  for every \<open>n \<ge> 0\<close> that, written at the display quantum, has at most 28 digits,
  \<^verbatim>\<open>from_sub_units(n, c)\<close> succeeds with the amount \<open>n / 10^K\<close>, exactly, and
  \<^verbatim>\<open>sub_units\<close> of the result is \<open>n\<close>.
\<close>

theorem from_sub_units_roundtrip_nonnegative:
  assumes "0 \<le> n"
    and "sub_unit c = 10 ^ K" and "stage1 c = - int K" and "stage2 c \<le> stage1 c"
    and "n * 10 ^ nat (stage1 c - stage2 c) < 10 ^ prec"
  shows "\<exists>m. from_sub_units n c = Inr m \<and> canonical m \<and> currency m = c \<and>
             dec_value (amount m) = of_int n / 10 ^ K \<and> sub_units m = n"
proof -
  from assms(1,5) have "\<bar>n\<bar> * 10 ^ nat (stage1 c - stage2 c) < 10 ^ prec" by simp
  from from_sub_units_roundtrip [OF assms(2,3,4) this]
  show ?thesis by (simp add: power_int_minus divide_inverse)
qed

theorem from_sub_units_roundtrip_nonnegative_witness:
  "(0::int) \<le> 101 \<and> sub_unit USD = 10 ^ 2 \<and> stage1 USD = - int 2 \<and> stage2 USD \<le> stage1 USD \<and>
   (101::int) * 10 ^ nat (stage1 USD - stage2 USD) < 10 ^ prec \<and>
   from_sub_units 101 USD = Inr \<lparr>amount = Decimal 101 (- 2), currency = USD\<rparr> \<and>
   sub_units \<lparr>amount = Decimal 101 (- 2), currency = USD\<rparr> = 101"
proof -
  have s: "sub_unit USD = 10 ^ 2" by (simp add: USD_def)
  have b: "(101::int) * 10 ^ nat (stage1 USD - stage2 USD) < 10 ^ prec" by (simp add: prec_def)
  have f: "from_sub_units 101 USD = Inr \<lparr>amount = Decimal 101 (- 2), currency = USD\<rparr>"
    by (simp add: from_sub_units_def sub_unit_for_currency_def s div_101_100 Money_init_def
        round_defs dec_eq_def scaled_def)
  from from_sub_units_roundtrip_nonnegative [of 101 USD 2, OF _ s _ _ b] f s b
  show ?thesis by simp
qed

text \<open>
  C4, as stated, fails for a registered currency whose display precision does not cover
  its sub-units: GNF has 100 sub-units and no display decimals, and
  \<^verbatim>\<open>Money.from_sub_units(150, GNF)\<close> raises \<^verbatim>\<open>InvalidAmountError\<close>, since 1.5 rounds to 2.
\<close>

theorem from_sub_units_counterexample:
  "(0::int) \<le> 150 \<and> registered GNF \<and> from_sub_units 150 GNF = Inl InvalidAmountError"
proof -
  have s: "sub_unit GNF = 100" by (simp add: GNF_def)
  have "registered GNF" by (simp add: registered_def s)
  moreover have "from_sub_units 150 GNF = Inl InvalidAmountError"
    by (simp add: from_sub_units_def sub_unit_for_currency_def s div_150_100 Money_init_def
        round_defs dec_eq_def scaled_def)
  ultimately show ?thesis by simp
qed

text \<open>
  C10, as the code has it: the same round trip for negative counts. Under the conditions
  of C4 on the currency, for every \<open>n < 0\<close> whose magnitude, written at the display
  quantum, has at most 28 digits, \<^verbatim>\<open>from_sub_units(n, c)\<close> succeeds with the amount
  \<open>n / 10^K\<close> and \<^verbatim>\<open>sub_units\<close> of the result is \<open>n\<close>.
\<close>

theorem from_sub_units_roundtrip_negative:
  assumes "n < 0"
    and "sub_unit c = 10 ^ K" and "stage1 c = - int K" and "stage2 c \<le> stage1 c"
    and "- n * 10 ^ nat (stage1 c - stage2 c) < 10 ^ prec"
  shows "\<exists>m. from_sub_units n c = Inr m \<and> canonical m \<and> currency m = c \<and>
             dec_value (amount m) = of_int n / 10 ^ K \<and> sub_units m = n"
proof -
  from assms(1,5) have "\<bar>n\<bar> * 10 ^ nat (stage1 c - stage2 c) < 10 ^ prec" by simp
  from from_sub_units_roundtrip [OF assms(2,3,4) this]
  show ?thesis by (simp add: power_int_minus divide_inverse)
qed

theorem from_sub_units_roundtrip_negative_witness:
  "(- 101 :: int) < 0 \<and> sub_unit USD = 10 ^ 2 \<and> stage1 USD = - int 2 \<and> stage2 USD \<le> stage1 USD \<and>
   - (- 101 :: int) * 10 ^ nat (stage1 USD - stage2 USD) < 10 ^ prec \<and>
   from_sub_units (- 101) USD = Inr \<lparr>amount = Decimal (- 101) (- 2), currency = USD\<rparr> \<and>
   sub_units \<lparr>amount = Decimal (- 101) (- 2), currency = USD\<rparr> = - 101"
proof -
  have s: "sub_unit USD = 10 ^ 2" by (simp add: USD_def)
  have b: "- (- 101 :: int) * 10 ^ nat (stage1 USD - stage2 USD) < 10 ^ prec"
    by (simp add: prec_def)
  have f: "from_sub_units (- 101) USD = Inr \<lparr>amount = Decimal (- 101) (- 2), currency = USD\<rparr>"
    by (simp add: from_sub_units_def sub_unit_for_currency_def s div_m101_100 Money_init_def
        round_defs dec_eq_def scaled_def)
  from from_sub_units_roundtrip_negative [of "- 101" USD 2, OF _ s _ _ b] f s b
  show ?thesis by simp
qed

text \<open>
  C10, as stated, fails for large counts: USD covers its sub-units, yet
  \<^verbatim>\<open>Money.from_sub_units(-10**28, USD)\<close> raises \<^verbatim>\<open>decimal.InvalidOperation\<close>, because
  \<open>-10^26\<close> cannot be quantized to two decimals in 28 digits.
\<close>

theorem from_sub_units_negative_counterexample:
  "(- 10000000000000000000000000000 :: int) < 0 \<and> registered USD \<and>
   stage2 USD \<le> stage1 USD \<and>
   from_sub_units (- 10000000000000000000000000000) USD = Inl InvalidOperation"
proof -
  have s: "sub_unit USD = 100" by (simp add: USD_def)
  have "registered USD" by (simp add: registered_def s)
  moreover have "from_sub_units (- 10000000000000000000000000000) USD = Inl InvalidOperation"
    by (simp add: from_sub_units_def sub_unit_for_currency_def s div_m1e28_100 Money_init_def
        round_defs)
  ultimately show ?thesis by simp
qed

end
